theory Spec2Isabelle
  imports Complex_Main "HOL-Library.Multiset"
begin

section \<open>Values, errors and arrays\<close>

text \<open>
  Python's unbounded integers are \<open>int\<close>. Every exception the modelled code can raise is a
  constructor of \<open>error\<close>; a function that may raise returns \<open>error + 'a\<close> with \<open>Inl\<close> for
  the raise. An f-string message is kept as its template (verbatim from the source) together
  with the sequences that the template interpolates, in the order of their appearance.

  The index, shape and stride arrays of the source are numpy integer arrays. Their elements
  are modelled as \<open>int\<close>: the fixed width of the numpy element types is outside this model.
\<close>

datatype error =
    IndexingError string "int list list"
  | ValueError string "int list list"
  | TypeError
  | IndexError
  | ZeroDivisionError
  | OverflowError
  | AssertionError

text \<open>
  \<open>numpy.array(x)\<close> of a bare integer is a 0-dimensional array, on which \<open>len\<close> raises a
  \<open>TypeError\<close>; of a sequence of integers it is a 1-dimensional array.
\<close>

datatype ndarray = Array0 int | Array1 "int list"

text \<open>The argument of \<open>TensorData.index\<close>, of type \<open>Union[int, UserIndex]\<close>.\<close>

datatype user_index = IntKey int | SeqKey "int list"

fun array :: "user_index \<Rightarrow> ndarray" where
  "array (IntKey i) = Array0 i"
| "array (SeqKey xs) = Array1 xs"

text \<open>
  Modelled from the spec: \<open>operators.prod\<close> is imported by \<open>tensor_data.py\<close> and is not part
  of the sources at hand. The spec fixes the buffer length as "the product of its shape
  (or 1 for a 0-dimensional/scalar tensor)".
\<close>

definition prod_op :: "int list \<Rightarrow> int" where
  "prod_op shape = prod_list shape"

section \<open>The indexing engine\<close>

subsection \<open>\<open>index_to_position\<close>\<close>

fun index_to_position :: "ndarray \<Rightarrow> int list \<Rightarrow> error + int" where
  "index_to_position (Array0 i) strides = Inl TypeError"
| "index_to_position (Array1 index) strides =
     (if length index \<noteq> length strides
      then Inl (IndexingError ''Index {index} must have same length as strides {strides}''
                  [index, strides])
      else Inr (sum_list (map (\<lambda>(index, stride). index * stride) (zip index strides))))"

subsection \<open>\<open>to_index\<close>\<close>

text \<open>
  The loop \<open>for i in range(len(shape) - 1, -1, -1)\<close> is \<open>to_index_loop\<close>: its first argument
  counts the dimensions still to be processed, so that \<open>Suc i\<close> processes dimension \<open>i\<close>
  and goes on with the dimensions below it. The right-hand side \<open>ordinal % shape[i]\<close> is
  evaluated before the store into \<open>out_index[i]\<close>. A zero dimension is the branch
  \<open>ZeroDivisionError\<close>, as Python's own integers raise it (numpy's integer scalars warn and
  give 0 instead; every statement below about \<open>to_index\<close> is for shapes without a zero
  dimension). An \<open>out_index\<close> shorter than the shape is the branch \<open>IndexError\<close>.
  Python's \<open>%\<close> and \<open>//\<close> round towards minus infinity, as \<open>mod\<close> and \<open>div\<close> on \<open>int\<close> do.
\<close>

fun to_index_loop :: "nat \<Rightarrow> int \<Rightarrow> int list \<Rightarrow> int list \<Rightarrow> error + int list" where
  "to_index_loop 0 ordinal shape out_index = Inr out_index"
| "to_index_loop (Suc i) ordinal shape out_index =
     (if shape ! i = 0 then Inl ZeroDivisionError
      else if length out_index \<le> i then Inl IndexError
      else to_index_loop i (ordinal div shape ! i) shape
             (out_index[i := ordinal mod shape ! i]))"

definition to_index :: "int \<Rightarrow> int list \<Rightarrow> int list \<Rightarrow> error + int list" where
  "to_index ordinal shape out_index = to_index_loop (length shape) ordinal shape out_index"

subsection \<open>\<open>broadcast_index\<close>\<close>

text \<open>
  The four \<open>print\<close> calls at the head of \<open>broadcast_index\<close> write to standard output and
  touch none of the arguments; they are not part of the model. The function mutates
  \<open>out_index\<close> and returns \<open>None\<close>: the model returns the array after the call.

  \<open>broadcast_index_check\<close> is the loop \<open>for dim in range(len(big_shape))\<close> that validates the
  padded shape, \<open>broadcast_index_map\<close> the loop \<open>for dim in range(len(shape))\<close> that writes
  the coordinates. In the latter the right-hand side \<open>big_index[big_dim]\<close> is read before
  the store into \<open>out_index[dim]\<close>; both raise \<open>IndexError\<close> out of range. The loop
  variable \<open>dim\<close> of the source is \<open>d\<close> here.
\<close>

fun broadcast_index_check :: "nat list \<Rightarrow> int list \<Rightarrow> int list \<Rightarrow> int list \<Rightarrow> error + unit" where
  "broadcast_index_check [] padded_shape big_shape shape = Inr ()"
| "broadcast_index_check (d # ds) padded_shape big_shape shape =
     (if padded_shape ! d \<noteq> 1 \<and> padded_shape ! d \<noteq> big_shape ! d
      then Inl (ValueError ''Shapes {big_shape} and {shape} are not broadcast-compatible.''
                  [big_shape, shape])
      else broadcast_index_check ds padded_shape big_shape shape)"

fun broadcast_index_map ::
  "nat list \<Rightarrow> nat \<Rightarrow> int list \<Rightarrow> int list \<Rightarrow> int list \<Rightarrow> error + int list" where
  "broadcast_index_map [] pad_amount padded_shape big_index out_index = Inr out_index"
| "broadcast_index_map (d # ds) pad_amount padded_shape big_index out_index =
     (let big_dim = d + pad_amount in
      if padded_shape ! big_dim > 1 then
        (if length big_index \<le> big_dim then Inl IndexError
         else if length out_index \<le> d then Inl IndexError
         else broadcast_index_map ds pad_amount padded_shape big_index
                (out_index[d := big_index ! big_dim]))
      else
        (if length out_index \<le> d then Inl IndexError
         else broadcast_index_map ds pad_amount padded_shape big_index
                (out_index[d := 0])))"

definition broadcast_index ::
  "int list \<Rightarrow> int list \<Rightarrow> int list \<Rightarrow> int list \<Rightarrow> error + int list" where
  "broadcast_index big_index big_shape shape out_index =
     (if length shape = 0 then Inr out_index
      else
        let pad_amount = int (length big_shape) - int (length shape) in
        if pad_amount < 0
        then Inl (ValueError ''big_shape must have at least as many dimensions as shape'' [])
        else
          let padded_shape = replicate (nat pad_amount) 1 @ shape in
          case broadcast_index_check [0..<length big_shape] padded_shape big_shape shape of
            Inl e \<Rightarrow> Inl e
          | Inr u \<Rightarrow>
              broadcast_index_map [0..<length shape] (nat pad_amount) padded_shape
                big_index out_index)"

subsection \<open>\<open>shape_broadcast\<close>\<close>

text \<open>
  \<open>shape_broadcast_loop\<close> is the loop over \<open>zip(shape1, shape2)\<close>; its last argument is the
  list \<open>broadcasted_shape\<close> built so far. The message of the error interpolates the two
  shapes as they are after the padding.
\<close>

fun shape_broadcast_loop ::
  "(int \<times> int) list \<Rightarrow> int list \<Rightarrow> int list \<Rightarrow> int list \<Rightarrow> error + int list" where
  "shape_broadcast_loop [] shape1 shape2 broadcasted_shape = Inr broadcasted_shape"
| "shape_broadcast_loop ((dim1, dim2) # rest) shape1 shape2 broadcasted_shape =
     (if dim1 \<noteq> dim2 \<and> \<not> (dim1 = 1 \<or> dim2 = 1)
      then Inl (IndexingError ''Cannot broadcast shapes {shape1} and {shape2}'' [shape1, shape2])
      else shape_broadcast_loop rest shape1 shape2 (broadcasted_shape @ [max dim1 dim2]))"

definition shape_broadcast :: "int list \<Rightarrow> int list \<Rightarrow> error + int list" where
  "shape_broadcast shape1 shape2 =
     (let number_of_dims1 = length shape1;
          number_of_dims2 = length shape2;
          dims_to_pad = nat \<bar>int number_of_dims1 - int number_of_dims2\<bar>;
          shape1' = (if number_of_dims1 \<noteq> number_of_dims2 \<and> number_of_dims1 < number_of_dims2
                     then replicate dims_to_pad 1 @ shape1 else shape1);
          shape2' = (if number_of_dims1 \<noteq> number_of_dims2 \<and> \<not> number_of_dims1 < number_of_dims2
                     then replicate dims_to_pad 1 @ shape2 else shape2)
      in shape_broadcast_loop (zip shape1' shape2') shape1' shape2' [])"

subsection \<open>\<open>strides_from_shape\<close>\<close>

text \<open>
  \<open>strides_from_shape_loop\<close> is the loop over \<open>reversed(shape)\<close>, with the variables \<open>layout\<close>
  and \<open>offset\<close> as arguments; \<open>layout[:-1]\<close> is \<open>butlast\<close>.
\<close>

fun strides_from_shape_loop :: "int list \<Rightarrow> int list \<Rightarrow> int \<Rightarrow> int list" where
  "strides_from_shape_loop [] layout offset = layout"
| "strides_from_shape_loop (s # rest) layout offset =
     strides_from_shape_loop rest (layout @ [s * offset]) (s * offset)"

definition strides_from_shape :: "int list \<Rightarrow> int list" where
  "strides_from_shape shape = rev (butlast (strides_from_shape_loop (rev shape) [1] 1))"

section \<open>The tensor data store\<close>

text \<open>
  A \<open>TensorData\<close> holds a reference to a numpy buffer that other \<open>TensorData\<close> objects may
  hold as well. The buffers live in an explicit store: \<open>buffers h a\<close> is the content of the
  buffer at address \<open>a\<close>, and \<open>next_addr h\<close> is the address that the next allocation takes.
  The elements of a buffer are only stored and read back, so their type is a parameter.
\<close>

record 'a heap =
  buffers :: "nat \<Rightarrow> 'a list"
  next_addr :: nat

text \<open>
  The fields of the class. \<open>td_storage\<close> is \<open>_storage\<close> (the address of the buffer),
  \<open>td_strides\<close> is \<open>strides\<close> and \<open>td_shape\<close> is \<open>shape\<close>; the arrays \<open>_strides\<close> and \<open>_shape\<close>
  are built from these two tuples by the constructor, hold the same sequences and are
  never written afterwards, so each pair is one field here. \<open>td_dims\<close> and \<open>td_size\<close> are
  \<open>dims\<close> and \<open>size\<close>.
\<close>

record tensor_data =
  td_storage :: nat
  td_strides :: "int list"
  td_shape :: "int list"
  td_dims :: nat
  td_size :: int

text \<open>
  The \<open>storage\<close> argument of the constructor: a numpy array is taken as it is (by
  reference), any other sequence is copied into a new array.
\<close>

datatype 'a storage_arg = NdArray nat | Sequence "'a list"

text \<open>
  The constructor. Shapes and strides are tuples by their type here, so the two
  \<open>isinstance\<close> assertions cannot fail. The result is the new object and the store.
\<close>

definition TensorData_init ::
  "'a heap \<Rightarrow> 'a storage_arg \<Rightarrow> int list \<Rightarrow> int list option \<Rightarrow> error + (tensor_data \<times> 'a heap)" where
  "TensorData_init h storage shape strides_arg =
     (let (ref, h1) =
            (case storage of
               NdArray a \<Rightarrow> (a, h)
             | Sequence xs \<Rightarrow>
                 (next_addr h,
                  h\<lparr>buffers := (buffers h)(next_addr h := xs), next_addr := Suc (next_addr h)\<rparr>));
          strides = (case strides_arg of None \<Rightarrow> strides_from_shape shape | Some s \<Rightarrow> s)
      in
      if length strides \<noteq> length shape
      then Inl (IndexingError ''Len of strides {strides} must match {shape}.'' [strides, shape])
      else
        let self = \<lparr>td_storage = ref, td_strides = strides, td_shape = shape,
                    td_dims = length strides, td_size = prod_op shape\<rparr>
        in if int (length (buffers h1 ref)) = td_size self then Inr (self, h1)
           else Inl AssertionError)"

text \<open>
  \<open>TensorData.index\<close>. \<open>index_check\<close> is the loop over \<open>enumerate(aindex)\<close>, its first
  argument the counter \<open>i\<close>. The local variable \<open>shape\<close> is assigned and never read: the
  checks read \<open>self.shape\<close>. The last line passes \<open>array(index)\<close>, built from the argument
  itself, not \<open>aindex\<close>.
\<close>

fun index_check :: "nat \<Rightarrow> int list \<Rightarrow> int list \<Rightarrow> int list \<Rightarrow> error + unit" where
  "index_check i [] aindex self_shape = Inr ()"
| "index_check i (ind # rest) aindex self_shape =
     (if ind \<ge> self_shape ! i
      then Inl (IndexingError ''Index {aindex} out of range {self.shape}.'' [aindex, self_shape])
      else if ind < 0
      then Inl (IndexingError ''Negative indexing for {aindex} not supported.'' [aindex])
      else index_check (Suc i) rest aindex self_shape)"

definition TensorData_index :: "tensor_data \<Rightarrow> user_index \<Rightarrow> error + int" where
  "TensorData_index self index =
     (let aindex = (case index of IntKey i \<Rightarrow> [i] | SeqKey xs \<Rightarrow> xs);
          shape = (if length (td_shape self) = 0 \<and> length aindex \<noteq> 0
                   then [1] else td_shape self)
      in
      if length aindex \<noteq> length (td_shape self)
      then Inl (IndexingError ''Index {aindex} must be size of {self.shape}.''
                  [aindex, td_shape self])
      else
        case index_check 0 aindex aindex (td_shape self) of
          Inl e \<Rightarrow> Inl e
        | Inr u \<Rightarrow> index_to_position (array index) (td_strides self))"

text \<open>
  \<open>TensorData.indices\<close>. The generator is modelled by the list of everything it yields;
  \<open>indices_loop\<close> is its loop over \<open>range(self.size)\<close>, threading the one array \<open>out_index\<close>
  that every call of \<open>to_index\<close> overwrites and of which each \<open>yield\<close> takes a copy.
\<close>

fun indices_loop :: "int list \<Rightarrow> int list \<Rightarrow> int list \<Rightarrow> error + int list list" where
  "indices_loop [] lshape out_index = Inr []"
| "indices_loop (i # rest) lshape out_index =
     (case to_index i lshape out_index of
        Inl e \<Rightarrow> Inl e
      | Inr out_index' \<Rightarrow>
          (case indices_loop rest lshape out_index' of
             Inl e \<Rightarrow> Inl e
           | Inr yielded \<Rightarrow> Inr (out_index' # yielded)))"

definition TensorData_indices :: "tensor_data \<Rightarrow> error + int list list" where
  "TensorData_indices self =
     indices_loop [0..td_size self - 1] (td_shape self) (td_shape self)"

text \<open>
  Reading and writing a numpy buffer at an integer position: a negative position counts
  from the end, and a position outside \<open>[-n, n)\<close> raises \<open>IndexError\<close>.
\<close>

definition storage_pos :: "nat \<Rightarrow> int \<Rightarrow> error + nat" where
  "storage_pos n p =
     (if 0 \<le> p \<and> p < int n then Inr (nat p)
      else if - int n \<le> p \<and> p < 0 then Inr (nat (p + int n))
      else Inl IndexError)"

definition TensorData_get :: "'a heap \<Rightarrow> tensor_data \<Rightarrow> user_index \<Rightarrow> error + 'a" where
  "TensorData_get h self key =
     (case TensorData_index self key of
        Inl e \<Rightarrow> Inl e
      | Inr p \<Rightarrow>
          (case storage_pos (length (buffers h (td_storage self))) p of
             Inl e \<Rightarrow> Inl e
           | Inr k \<Rightarrow> Inr (buffers h (td_storage self) ! k)))"

definition TensorData_set :: "'a heap \<Rightarrow> tensor_data \<Rightarrow> user_index \<Rightarrow> 'a \<Rightarrow> error + 'a heap" where
  "TensorData_set h self key val =
     (case TensorData_index self key of
        Inl e \<Rightarrow> Inl e
      | Inr p \<Rightarrow>
          (case storage_pos (length (buffers h (td_storage self))) p of
             Inl e \<Rightarrow> Inl e
           | Inr k \<Rightarrow>
               Inr (h\<lparr>buffers := (buffers h)
                      (td_storage self := (buffers h (td_storage self))[k := val])\<rparr>)))"

text \<open>
  \<open>TensorData.permute\<close>. After the assertion every element of \<open>order\<close> is a dimension of
  the tensor, so \<open>self.shape[i]\<close> and \<open>self.strides[i]\<close> are in range. The new object is built
  by the constructor from \<open>self._storage\<close>, a numpy array, which allocates nothing.
\<close>

definition TensorData_permute :: "'a heap \<Rightarrow> tensor_data \<Rightarrow> int list \<Rightarrow> error + tensor_data" where
  "TensorData_permute h self order =
     (if sort order \<noteq> [0..int (length (td_shape self)) - 1] then Inl AssertionError
      else if order = [0..int (length (td_shape self)) - 1] then Inr self
      else
        let new_shape = map (\<lambda>i. td_shape self ! nat i) order;
            new_strides = map (\<lambda>i. td_strides self ! nat i) order
        in case TensorData_init h (NdArray (td_storage self)) new_shape (Some new_strides) of
             Inl e \<Rightarrow> Inl e
           | Inr (t, h') \<Rightarrow> Inr t)"

section \<open>Scalar functions\<close>

text \<open>
  A numeric value of Python is an \<open>int\<close> or a \<open>float\<close>, and \<open>isinstance(c, float)\<close> tells
  them apart. A float carries a real number as its payload. What the float arithmetic of
  Python does with these payloads is not fixed here but taken as a parameter, so that the
  statements below hold whatever it rounds to: \<open>float_of_int\<close> is the conversion \<open>float(i)\<close>
  of an integer, \<open>None\<close> where Python raises \<open>OverflowError\<close> (an integer beyond the range of
  a float), and \<open>float_add\<close> is the sum of two floats.
\<close>

datatype pyval = PyInt int | PyFloat real


text \<open>
  Modelled from the spec: \<open>Context\<close> is imported from \<open>autodiff.py\<close>, which is not part of the
  sources at hand. The spec describes it as "a mutable, per-invocation record holding
  values saved during a forward computation"; \<open>apply\<close> creates it as \<open>Context(False)\<close>.
\<close>

record autodiff_context =
  no_grad :: bool
  saved_values :: "pyval list"


text \<open>
  The subclasses of \<open>ScalarFunction\<close> that the statements below are about. The forward
  functions of the comparisons call \<open>operators.lt\<close>, \<open>operators.gt\<close> and \<open>operators.eq\<close>;
  \<open>operators.py\<close> is not part of the sources at hand, so the three are parameters.
\<close>

datatype scalar_function = Add | LT | GT | EQ



text \<open>
  \<open>forward\<close> and \<open>backward\<close> of each class. The context is passed in and returned, since a
  forward function may save values in it (none of these four does). A call with a number
  of arguments other than two is a \<open>TypeError\<close> of Python. A backward function returns a
  float or a tuple of floats, which \<open>wrap_tuple\<close> turns into a tuple.
\<close>

datatype back_result = Single pyval | Tuple "pyval list"


fun backward :: "scalar_function \<Rightarrow> autodiff_context \<Rightarrow> pyval \<Rightarrow> back_result" where
  "backward Add ctx d_output = Tuple [d_output, d_output]"
| "backward LT ctx d_output = Tuple [PyFloat 0, PyFloat 0]"
| "backward GT ctx d_output = Tuple [PyFloat 0, PyFloat 0]"
| "backward EQ ctx d_output = Tuple [PyFloat 0, PyFloat 0]"

fun wrap_tuple :: "back_result \<Rightarrow> pyval list" where
  "wrap_tuple (Tuple x) = x"
| "wrap_tuple (Single x) = [x]"

definition u_backward :: "scalar_function \<Rightarrow> autodiff_context \<Rightarrow> pyval \<Rightarrow> pyval list" where
  "u_backward cls ctx d_out = wrap_tuple (backward cls ctx d_out)"







section \<open>Definitions for the statements\<close>

text \<open>
  \<open>shape_broadcast_spec\<close> is the broadcast rule as the specification words it: right-align
  the two shapes, pad the shorter on the left with dimensions of size 1, and take the
  maximum of each aligned pair provided the two sizes are equal or one of them is 1;
  otherwise fail with an \<open>IndexingError\<close> that names the two aligned shapes.
\<close>

definition shape_broadcast_spec :: "int list \<Rightarrow> int list \<Rightarrow> error + int list" where
  "shape_broadcast_spec shape1 shape2 =
     (let n = max (length shape1) (length shape2);
          padded1 = replicate (n - length shape1) 1 @ shape1;
          padded2 = replicate (n - length shape2) 1 @ shape2
      in if list_all (\<lambda>(d1, d2). d1 = d2 \<or> d1 = 1 \<or> d2 = 1) (zip padded1 padded2)
         then Inr (map (\<lambda>(d1, d2). max d1 d2) (zip padded1 padded2))
         else Inl (IndexingError ''Cannot broadcast shapes {shape1} and {shape2}''
                     [padded1, padded2]))"

text \<open>
  The shape of the smaller tensor as \<open>broadcast_index\<close> pads it: on the left, with
  dimensions of size 1, to the number of dimensions of \<open>big_shape\<close>.
\<close>

definition padded_shape_of :: "int list \<Rightarrow> int list \<Rightarrow> int list" where
  "padded_shape_of big_shape shape = replicate (length big_shape - length shape) 1 @ shape"

text \<open>
  Mixed-radix numerals, least significant digit first: \<open>mixed_digits n rs\<close> are the digits
  of \<open>n\<close> for the radices \<open>rs\<close>, \<open>mixed_value ds rs\<close> is the number that the digits \<open>ds\<close>
  denote, and \<open>radix_strides c rs\<close> are the weights of the digit positions, starting from
  \<open>c\<close>. The coordinate of an ordinal in a shape is the digit list of the ordinal for the
  reversed shape, reversed.
\<close>

fun mixed_digits :: "int \<Rightarrow> int list \<Rightarrow> int list" where
  "mixed_digits n [] = []"
| "mixed_digits n (r # rs) = (n mod r) # mixed_digits (n div r) rs"

fun mixed_value :: "int list \<Rightarrow> int list \<Rightarrow> int" where
  "mixed_value (d # ds) (r # rs) = d + r * mixed_value ds rs"
| "mixed_value ds rs = 0"

fun radix_strides :: "int \<Rightarrow> int list \<Rightarrow> int list" where
  "radix_strides c [] = []"
| "radix_strides c (r # rs) = c # radix_strides (c * r) rs"

text \<open>
  A coordinate is valid for a shape when it has one entry for each dimension and each
  entry is within \<open>[0, shape[dim])\<close>.
\<close>

definition valid_index :: "int list \<Rightarrow> int list \<Rightarrow> bool" where
  "valid_index shape idx = list_all2 (\<lambda>i s. 0 \<le> i \<and> i < s) idx shape"

text \<open>
  What the constructor establishes of a \<open>TensorData\<close> and its buffer, and what no method
  changes afterwards: as many strides as dimensions, \<open>dims\<close> and \<open>size\<close> as computed from
  them, and a buffer of \<open>size\<close> elements.
\<close>

definition TensorData_ok :: "'a heap \<Rightarrow> tensor_data \<Rightarrow> bool" where
  "TensorData_ok h t =
     (length (td_strides t) = length (td_shape t)
      \<and> td_dims t = length (td_strides t)
      \<and> td_size t = prod_op (td_shape t)
      \<and> int (length (buffers h (td_storage t))) = td_size t)"

text \<open>
  The coordinate that a coordinate \<open>idx\<close> of a tensor has in the view \<open>permute(*order)\<close>:
  dimension \<open>k\<close> of the view is dimension \<open>order[k]\<close> of the tensor.
\<close>

definition permute_index :: "int list \<Rightarrow> int list \<Rightarrow> int list" where
  "permute_index order idx = map (\<lambda>i. idx ! nat i) order"



section \<open>Scalar functions: the comparisons and \<open>apply\<close>\<close>

text \<open>
  C7. The backward function of each of the comparisons \<open>LT\<close>, \<open>GT\<close> and \<open>EQ\<close> returns the
  pair \<open>(0.0, 0.0)\<close>, for every context and every incoming gradient \<open>d_output\<close>, and so
  does \<open>_backward\<close>, which wraps the result as a tuple. The operands of the forward call
  can reach a backward function through the context only, which is arbitrary here.
\<close>

theorem comparison_backward_zero:
  "backward LT ctx d_output = Tuple [PyFloat 0, PyFloat 0]
   \<and> backward GT ctx d_output = Tuple [PyFloat 0, PyFloat 0]
   \<and> backward EQ ctx d_output = Tuple [PyFloat 0, PyFloat 0]
   \<and> u_backward LT ctx d_output = [PyFloat 0, PyFloat 0]
   \<and> u_backward GT ctx d_output = [PyFloat 0, PyFloat 0]
   \<and> u_backward EQ ctx d_output = [PyFloat 0, PyFloat 0]"
  by (simp add: u_backward_def)






section \<open>\<open>TensorData.index\<close> with a bare integer\<close>

text \<open>
  C10. On a 0-dimensional tensor (empty shape), \<open>index\<close> with a bare integer \<open>i\<close> raises
  the \<open>IndexingError\<close> of the dimensionality check: the index has one element and
  \<open>self.shape\<close> has none.
\<close>

theorem index_int_zero_dim:
  "td_shape t = [] \<Longrightarrow>
   TensorData_index t (IntKey i)
     = Inl (IndexingError ''Index {aindex} must be size of {self.shape}.'' [[i], []])"
  by (simp add: TensorData_index_def)

theorem index_int_zero_dim_witness:
  "td_shape \<lparr>td_storage = 0, td_strides = [], td_shape = [], td_dims = 0, td_size = 1\<rparr> = []
   \<and> TensorData_index
        \<lparr>td_storage = 0, td_strides = [], td_shape = [], td_dims = 0, td_size = 1\<rparr> (IntKey 0)
      = Inl (IndexingError ''Index {aindex} must be size of {self.shape}.'' [[0], []])"
  using index_int_zero_dim
    [of "\<lparr>td_storage = 0, td_strides = [], td_shape = [], td_dims = 0, td_size = 1\<rparr>" 0]
  by simp

text \<open>
  On a 1-dimensional tensor a bare integer within bounds passes the checks, which read
  \<open>aindex\<close>, and then \<open>index_to_position\<close> receives \<open>array(index)\<close>, a 0-dimensional array
  whose \<open>len\<close> raises \<open>TypeError\<close>. The same coordinate as a 1-tuple gives the position.
\<close>

lemma index_int_one_dim:
  "td_shape t = [n] \<Longrightarrow> 0 \<le> i \<Longrightarrow> i < n \<Longrightarrow> TensorData_index t (IntKey i) = Inl TypeError"
  by (simp add: TensorData_index_def)

lemma index_tuple_one_dim:
  "td_shape t = [n] \<Longrightarrow> td_strides t = [s] \<Longrightarrow> 0 \<le> i \<Longrightarrow> i < n \<Longrightarrow>
   TensorData_index t (SeqKey [i]) = Inr (i * s)"
  by (simp add: TensorData_index_def)

text \<open>
  C8. The tensor with shape \<open>(3,)\<close> and strides \<open>(1,)\<close>, indexed with the bare integer \<open>1\<close>:
  the call raises \<open>TypeError\<close>, where the position \<open>1 * strides[0] = 1\<close> is expected.
\<close>

theorem index_int_type_error:
  "TensorData_index
     \<lparr>td_storage = 0, td_strides = [1], td_shape = [3], td_dims = 1, td_size = 3\<rparr> (IntKey 1)
   = Inl TypeError"
  by (simp add: TensorData_index_def)

section \<open>Broadcasting\<close>

lemma shape_broadcast_loop_eq:
  "shape_broadcast_loop zs s1 s2 acc =
     (if list_all (\<lambda>(d1, d2). d1 = d2 \<or> d1 = 1 \<or> d2 = 1) zs
      then Inr (acc @ map (\<lambda>(d1, d2). max d1 d2) zs)
      else Inl (IndexingError ''Cannot broadcast shapes {shape1} and {shape2}'' [s1, s2]))"
proof (induction zs arbitrary: acc)
  case Nil
  show ?case by simp
next
  case (Cons z zs)
  show ?case by (cases z) (simp add: Cons.IH)
qed

lemma nat_abs_diff: "nat \<bar>int m - int n\<bar> = (if m < n then n - m else m - n)"
  by (simp add: nat_diff_distrib')

text \<open>
  C3. \<open>shape_broadcast\<close> computes what the rule of the specification says, for every pair of
  shapes: the per-dimension maximum of the two right-aligned shapes when every aligned
  pair is equal or has a 1, and otherwise an \<open>IndexingError\<close> whose message interpolates
  the two aligned shapes. The three examples of the specification follow.
\<close>

theorem shape_broadcast_refines:
  "shape_broadcast shape1 shape2 = shape_broadcast_spec shape1 shape2
   \<and> shape_broadcast [5, 3] [3] = Inr [5, 3]
   \<and> shape_broadcast [1, 3] [5, 1] = Inr [5, 3]
   \<and> shape_broadcast [2, 3] [4, 3]
       = Inl (IndexingError ''Cannot broadcast shapes {shape1} and {shape2}'' [[2, 3], [4, 3]])"
proof -
  have "shape_broadcast shape1 shape2 = shape_broadcast_spec shape1 shape2"
    unfolding shape_broadcast_def shape_broadcast_spec_def Let_def shape_broadcast_loop_eq
      nat_abs_diff
    by (cases "length shape1 < length shape2"; cases "length shape1 = length shape2")
       (simp_all add: max_def)
  moreover have "shape_broadcast [5, 3] [3] = Inr [5, 3]"
    by (simp add: shape_broadcast_def)
  moreover have "shape_broadcast [1, 3] [5, 1] = Inr [5, 3]"
    by (simp add: shape_broadcast_def)
  moreover have "shape_broadcast [2, 3] [4, 3]
       = Inl (IndexingError ''Cannot broadcast shapes {shape1} and {shape2}'' [[2, 3], [4, 3]])"
    by (simp add: shape_broadcast_def)
  ultimately show ?thesis by blast
qed

lemma broadcast_index_check_eq:
  "broadcast_index_check ds padded big_shape shape =
     (if \<forall>d\<in>set ds. padded ! d = 1 \<or> padded ! d = big_shape ! d then Inr ()
      else Inl (ValueError ''Shapes {big_shape} and {shape} are not broadcast-compatible.''
                  [big_shape, shape]))"
  by (induction ds) simp_all

lemma broadcast_index_map_eq:
  assumes "\<forall>d\<in>set ds. d < length out_index \<and> d + pad < length big_index"
  shows "\<exists>out'. broadcast_index_map ds pad padded big_index out_index = Inr out'
           \<and> length out' = length out_index
           \<and> (\<forall>d<length out_index. out' ! d =
                 (if d \<in> set ds then (if padded ! (d + pad) > 1 then big_index ! (d + pad) else 0)
                  else out_index ! d))"
  using assms
proof (induction ds arbitrary: out_index)
  case Nil
  show ?case by simp
next
  case (Cons a ds)
  let ?v = "if padded ! (a + pad) > 1 then big_index ! (a + pad) else 0"
  let ?o = "out_index[a := ?v]"
  have a: "a < length out_index" "a + pad < length big_index" using Cons.prems by auto
  have step: "broadcast_index_map (a # ds) pad padded big_index out_index
                = broadcast_index_map ds pad padded big_index ?o"
    using a by (simp add: Let_def)
  have "\<forall>d\<in>set ds. d < length ?o \<and> d + pad < length big_index" using Cons.prems by auto
  from Cons.IH[OF this] obtain out' where o:
    "broadcast_index_map ds pad padded big_index ?o = Inr out'"
    "length out' = length ?o"
    "\<forall>d<length ?o. out' ! d =
        (if d \<in> set ds then (if padded ! (d + pad) > 1 then big_index ! (d + pad) else 0)
         else ?o ! d)" by blast
  have "\<forall>d<length out_index. out' ! d =
          (if d \<in> set (a # ds) then (if padded ! (d + pad) > 1 then big_index ! (d + pad) else 0)
           else out_index ! d)"
    using o(3) a by (auto simp: nth_list_update)
  then show ?case using step o(1,2) by simp
qed

text \<open>
  C4. Let \<open>big_index\<close> be a coordinate of \<open>big_shape\<close>, let \<open>shape\<close> have no more dimensions
  than \<open>big_shape\<close> and be broadcast-compatible with it after the padding, and let
  \<open>out_index\<close> have an entry for every dimension of \<open>shape\<close>. Then \<open>broadcast_index\<close>
  returns; with a \<open>shape\<close> of zero dimensions \<open>out_index\<close> is unchanged; otherwise
  \<open>out_index[d]\<close> is, for each dimension \<open>d\<close> of \<open>shape\<close>, 0 when the padded size at that
  dimension is 1, and the coordinate of \<open>big_index\<close> at the right-aligned dimension of
  \<open>big_shape\<close> otherwise. The entries of \<open>out_index\<close> beyond the dimensions of \<open>shape\<close> are
  unchanged.
\<close>

theorem broadcast_index_projects:
  assumes "length shape \<le> length big_shape"
    and "valid_index big_shape big_index"
    and "length shape \<le> length out_index"
    and "\<forall>d<length big_shape.
           padded_shape_of big_shape shape ! d = 1
           \<or> padded_shape_of big_shape shape ! d = big_shape ! d"
  shows "(shape = [] \<longrightarrow> broadcast_index big_index big_shape shape out_index = Inr out_index)
    \<and> (\<exists>out'. broadcast_index big_index big_shape shape out_index = Inr out'
          \<and> length out' = length out_index
          \<and> (\<forall>d<length shape.
                out' ! d =
                  (if padded_shape_of big_shape shape ! (d + (length big_shape - length shape)) = 1
                   then 0 else big_index ! (d + (length big_shape - length shape))))
          \<and> (\<forall>d<length out_index. length shape \<le> d \<longrightarrow> out' ! d = out_index ! d))"
proof (cases "shape = []")
  case True
  then show ?thesis by (simp add: broadcast_index_def)
next
  case False
  let ?pad = "length big_shape - length shape"
  let ?p = "padded_shape_of big_shape shape"
  have lb: "length big_index = length big_shape"
    using assms(2) by (simp add: valid_index_def list_all2_lengthD)
  have inb: "0 \<le> big_index ! k \<and> big_index ! k < big_shape ! k" if "k < length big_shape" for k
    using assms(2) that by (simp add: valid_index_def list_all2_conv_all_nth)
  have pad: "nat (int (length big_shape) - int (length shape)) = ?pad"
    using assms(1) by simp
  have chk: "broadcast_index_check [0..<length big_shape] ?p big_shape shape = Inr ()"
    using assms(4) by (simp add: broadcast_index_check_eq)
  have eq: "broadcast_index big_index big_shape shape out_index
              = broadcast_index_map [0..<length shape] ?pad ?p big_index out_index"
    using False assms(1) chk
    by (simp add: broadcast_index_def Let_def pad padded_shape_of_def[symmetric])
  have "\<forall>d\<in>set [0..<length shape]. d < length out_index \<and> d + ?pad < length big_index"
    using assms(1,3) lb by auto
  from broadcast_index_map_eq[OF this, of ?p] obtain out' where o:
    "broadcast_index_map [0..<length shape] ?pad ?p big_index out_index = Inr out'"
    "length out' = length out_index"
    "\<forall>d<length out_index. out' ! d =
        (if d \<in> set [0..<length shape]
         then (if ?p ! (d + ?pad) > 1 then big_index ! (d + ?pad) else 0)
         else out_index ! d)" by blast
  have 1: "\<forall>d<length shape. out' ! d = (if ?p ! (d + ?pad) = 1 then 0 else big_index ! (d + ?pad))"
  proof (intro allI impI)
    fix d assume d: "d < length shape"
    then have k: "d + ?pad < length big_shape" using assms(1) by simp
    have "1 \<le> big_shape ! (d + ?pad)" using inb[OF k] by linarith
    moreover have "?p ! (d + ?pad) = 1 \<or> ?p ! (d + ?pad) = big_shape ! (d + ?pad)"
      using assms(4) k by blast
    ultimately have "(?p ! (d + ?pad) > 1) = (?p ! (d + ?pad) \<noteq> 1)" by linarith
    moreover have "out' ! d = (if ?p ! (d + ?pad) > 1 then big_index ! (d + ?pad) else 0)"
      using o(3) assms(3) d by auto
    ultimately show "out' ! d = (if ?p ! (d + ?pad) = 1 then 0 else big_index ! (d + ?pad))"
      by simp
  qed
  have 2: "\<forall>d<length out_index. length shape \<le> d \<longrightarrow> out' ! d = out_index ! d"
    using o(3) by auto
  show ?thesis using False eq o(1,2) 1 2 by simp
qed

theorem broadcast_index_projects_witness:
  "length [1, 3::int] \<le> length [2, 3::int] \<and> valid_index [2, 3] [1, 2]
   \<and> (\<exists>out'. broadcast_index [1, 2] [2, 3] [1, 3] [7, 7] = Inr out' \<and> out' ! 0 = 0 \<and> out' ! 1 = 2)"
proof -
  have h1: "length [1, 3::int] \<le> length [2, 3::int]" by simp
  have h2: "valid_index [2, 3] [1, 2]" by (simp add: valid_index_def)
  have h3: "length [1, 3::int] \<le> length [7, 7::int]" by simp
  have h4: "\<forall>d<length [2, 3::int].
           padded_shape_of [2, 3] [1, 3] ! d = 1
           \<or> padded_shape_of [2, 3] [1, 3] ! d = [2, 3] ! d"
    by (simp add: padded_shape_of_def less_Suc_eq)
  from broadcast_index_projects[OF h1 h2 h3 h4] obtain out' where
    o: "broadcast_index [1, 2] [2, 3] [1, 3] [7, 7] = Inr out'"
    and n: "\<forall>d<length [1, 3::int].
                out' ! d =
                  (if padded_shape_of [2, 3] [1, 3] ! (d + (length [2, 3::int] - length [1, 3::int])) = 1
                   then 0 else [1, 2] ! (d + (length [2, 3::int] - length [1, 3::int])))"
    by blast
  have "out' ! 0 = 0" using n by (simp add: padded_shape_of_def)
  moreover have "out' ! 1 = 2" using n by (simp add: padded_shape_of_def)
  ultimately show ?thesis using h1 h2 o by simp
qed

text \<open>
  C5, as the code has it. When \<open>shape\<close> has no more dimensions than \<open>big_shape\<close> and some
  dimension of the padded shape is neither 1 nor the size of \<open>big_shape\<close> there,
  \<open>broadcast_index\<close> raises a \<open>ValueError\<close> whose message interpolates \<open>big_shape\<close> and
  \<open>shape\<close>, for every \<open>big_index\<close> and \<open>out_index\<close>.
\<close>

theorem broadcast_index_incompatible:
  assumes "length shape \<le> length big_shape"
    and "\<exists>d<length big_shape.
           padded_shape_of big_shape shape ! d \<noteq> 1
           \<and> padded_shape_of big_shape shape ! d \<noteq> big_shape ! d"
  shows "broadcast_index big_index big_shape shape out_index
           = Inl (ValueError ''Shapes {big_shape} and {shape} are not broadcast-compatible.''
                    [big_shape, shape])"
proof -
  have ne: "shape \<noteq> []"
  proof
    assume "shape = []"
    then have "\<forall>d<length big_shape. padded_shape_of big_shape shape ! d = 1"
      by (simp add: padded_shape_of_def)
    then show False using assms(2) by blast
  qed
  have pad: "nat (int (length big_shape) - int (length shape)) = length big_shape - length shape"
    using assms(1) by simp
  have "broadcast_index_check [0..<length big_shape] (padded_shape_of big_shape shape) big_shape shape
          = Inl (ValueError ''Shapes {big_shape} and {shape} are not broadcast-compatible.''
                    [big_shape, shape])"
    using assms(2) by (auto simp: broadcast_index_check_eq)
  then show ?thesis using ne assms(1)
    by (simp add: broadcast_index_def Let_def pad padded_shape_of_def[symmetric])
qed

theorem broadcast_index_incompatible_witness:
  "length [2::int] \<le> length [3::int]
   \<and> broadcast_index [0] [3] [2] [9]
       = Inl (ValueError ''Shapes {big_shape} and {shape} are not broadcast-compatible.'' [[3], [2]])"
proof -
  have h1: "length [2::int] \<le> length [3::int]" by simp
  have h2: "\<exists>d<length [3::int].
           padded_shape_of [3] [2] ! d \<noteq> 1 \<and> padded_shape_of [3] [2] ! d \<noteq> [3] ! d"
    by (simp add: padded_shape_of_def)
  show ?thesis using h1 broadcast_index_incompatible[OF h1 h2, of "[0]" "[9]"] by simp
qed

text \<open>
  C5, as stated, asks for an \<open>IndexingError\<close>. For the shapes \<open>(2, 3)\<close> and \<open>(4, 3)\<close> the
  error raised is a \<open>ValueError\<close>.
\<close>

theorem broadcast_index_raises_value_error:
  "broadcast_index [1, 0] [2, 3] [4, 3] [0, 0]
     = Inl (ValueError ''Shapes {big_shape} and {shape} are not broadcast-compatible.''
              [[2, 3], [4, 3]])"
  by (simp add: broadcast_index_def)

section \<open>Enumeration of coordinates: \<open>to_index\<close>\<close>

lemma to_index_loop_prefix:
  "i \<le> length S \<Longrightarrow> to_index_loop i n (S @ T) out = to_index_loop i n S out"
  by (induction i arbitrary: n out) (simp_all add: nth_append)

lemma drop_update_same:
  "n < length xs \<Longrightarrow> drop n (xs[n := x]) = x # drop (Suc n) xs"
  by (simp add: drop_update_swap[symmetric] Cons_nth_drop_Suc[symmetric]
        del: drop_update_swap) 

lemma to_index_loop_digits:
  "\<forall>s\<in>set S. s \<noteq> 0 \<Longrightarrow> length S \<le> length out \<Longrightarrow>
   to_index_loop (length S) n S out = Inr (rev (mixed_digits n (rev S)) @ drop (length S) out)"
proof (induction S arbitrary: n out rule: rev_induct)
  case Nil
  show ?case by simp
next
  case (snoc s S)
  have s: "s \<noteq> 0" and len: "length S < length out" using snoc.prems by auto
  have "to_index_loop (length (S @ [s])) n (S @ [s]) out
          = to_index_loop (length S) (n div s) (S @ [s]) (out[length S := n mod s])"
    using s len by simp
  also have "\<dots> = to_index_loop (length S) (n div s) S (out[length S := n mod s])"
    by (simp add: to_index_loop_prefix)
  also have "\<dots> = Inr (rev (mixed_digits (n div s) (rev S))
                        @ drop (length S) (out[length S := n mod s]))"
    using snoc.prems len by (intro snoc.IH) auto
  finally show ?case using len by (simp add: drop_update_same)
qed

lemma length_mixed_digits: "length (mixed_digits n rs) = length rs"
  by (induction rs arbitrary: n) simp_all

lemma mixed_digits_valid:
  "\<forall>r\<in>set rs. 0 < r \<Longrightarrow> list_all2 (\<lambda>i s. 0 \<le> i \<and> i < s) (mixed_digits n rs) rs"
  by (induction rs arbitrary: n) simp_all

lemma prod_list_pos: "\<forall>r\<in>set rs. 0 < r \<Longrightarrow> 0 < prod_list (rs :: int list)"
  by (induction rs) simp_all

lemma mixed_value_digits:
  "\<forall>r\<in>set rs. 0 < r \<Longrightarrow> mixed_value (mixed_digits n rs) rs = n mod prod_list rs"
proof (induction rs arbitrary: n)
  case Nil
  show ?case by simp
next
  case (Cons r rs)
  have "0 \<le> prod_list rs" using prod_list_pos[of rs] Cons.prems by auto
  then have "n mod (r * prod_list rs) = r * (n div r mod prod_list rs) + n mod r"
    by (rule zmod_zmult2_eq)
  then show ?case using Cons by simp
qed

lemma mixed_value_bounds:
  "list_all2 (\<lambda>i s. 0 \<le> i \<and> i < s) ds rs \<Longrightarrow>
   0 \<le> mixed_value ds rs \<and> mixed_value ds rs < prod_list rs"
proof (induction ds rs rule: list_all2_induct)
  case Nil
  show ?case by simp
next
  case (Cons d ds r rs)
  let ?v = "mixed_value ds rs"
  have v: "0 \<le> ?v" "?v + 1 \<le> prod_list rs" using Cons.IH by auto
  have d: "0 \<le> d" "d < r" using Cons.hyps by auto
  have "r * (?v + 1) \<le> r * prod_list rs" using v(2) d by (intro mult_left_mono) auto
  then have "d + r * ?v < r * prod_list rs" using d by (simp add: algebra_simps)
  moreover have "0 \<le> d + r * ?v" using d v by simp
  ultimately show ?case by simp
qed

lemma mixed_digits_value:
  "list_all2 (\<lambda>i s. 0 \<le> i \<and> i < s) ds rs \<Longrightarrow> mixed_digits (mixed_value ds rs) rs = ds"
proof (induction ds rs rule: list_all2_induct)
  case Nil
  show ?case by simp
next
  case (Cons d ds r rs)
  have d: "0 \<le> d" "d < r" using Cons.hyps by auto
  have "(d + r * mixed_value ds rs) mod r = d" using d by simp
  moreover have "(d + r * mixed_value ds rs) div r = mixed_value ds rs" using d by simp
  ultimately show ?case using Cons.IH by simp
qed

lemma mixed_digits_nth:
  "\<forall>s\<in>set S. 0 < s \<Longrightarrow> d < length S \<Longrightarrow>
   rev (mixed_digits n (rev S)) ! d = (n div prod_list (drop (Suc d) S)) mod S ! d"
proof (induction S arbitrary: n rule: rev_induct)
  case Nil
  then show ?case by simp
next
  case (snoc s S)
  show ?case
  proof (cases "d < length S")
    case True
    have "\<forall>r\<in>set (drop (Suc d) S). 0 < r"
      using snoc.prems(1) by (auto dest: in_set_dropD)
    then have pos: "0 \<le> prod_list (drop (Suc d) S)"
      using prod_list_pos[of "drop (Suc d) S"] by simp
    have "rev (mixed_digits n (rev (S @ [s]))) ! d = rev (mixed_digits (n div s) (rev S)) ! d"
      using True by (simp add: nth_append length_mixed_digits)
    also have "\<dots> = (n div s div prod_list (drop (Suc d) S)) mod S ! d"
      using snoc.prems True by (intro snoc.IH) auto
    also have "n div s div prod_list (drop (Suc d) S) = n div (s * prod_list (drop (Suc d) S))"
      using pos by (simp add: zdiv_zmult2_eq)
    finally show ?thesis using True by (simp add: nth_append mult.commute)
  next
    case False
    then have "d = length S" using snoc.prems(2) by simp
    then show ?thesis by (simp add: nth_append length_mixed_digits)
  qed
qed

lemma to_index_eq:
  assumes "\<forall>s\<in>set shape. 0 < s" and "length shape \<le> length out_index"
  shows "to_index n shape out_index
           = Inr (rev (mixed_digits n (rev shape)) @ drop (length shape) out_index)"
proof -
  have "\<forall>s\<in>set shape. s \<noteq> 0" using assms(1) by auto
  then show ?thesis unfolding to_index_def using assms(2) by (rule to_index_loop_digits)
qed

lemma coord_valid:
  "\<forall>s\<in>set shape. 0 < s \<Longrightarrow> valid_index shape (rev (mixed_digits n (rev shape)))"
  using mixed_digits_valid[of "rev shape" n] by (simp add: valid_index_def list_all2_rev1)


lemma coord_inj:
  assumes pos: "\<forall>s\<in>set shape. 0 < s"
    and m: "0 \<le> m" "m < prod_op shape" and n: "0 \<le> n" "n < prod_op shape"
    and eq: "rev (mixed_digits m (rev shape)) = rev (mixed_digits n (rev shape))"
  shows "m = n"
proof -
  have p: "\<forall>r\<in>set (rev shape). 0 < r" using pos by simp
  have "mixed_value (mixed_digits m (rev shape)) (rev shape)
          = mixed_value (mixed_digits n (rev shape)) (rev shape)" using eq by simp
  then have "m mod prod_op shape = n mod prod_op shape"
    by (simp add: mixed_value_digits[OF p] prod_op_def)
  then show ?thesis using m n by simp
qed

lemma coord_surj:
  assumes "valid_index shape idx"
  shows "\<exists>n. 0 \<le> n \<and> n < prod_op shape \<and> rev (mixed_digits n (rev shape)) = idx"
proof -
  have v: "list_all2 (\<lambda>i s. 0 \<le> i \<and> i < s) (rev idx) (rev shape)"
    using assms by (simp add: valid_index_def)
  let ?n = "mixed_value (rev idx) (rev shape)"
  have "0 \<le> ?n \<and> ?n < prod_op shape"
    using mixed_value_bounds[OF v] by (simp add: prod_op_def)
  moreover have "rev (mixed_digits ?n (rev shape)) = idx"
    using mixed_digits_value[OF v] by simp
  ultimately show ?thesis by blast
qed

text \<open>
  C1. Let every dimension of \<open>shape\<close> be positive and \<open>out_index\<close> have an entry for every
  dimension. For every ordinal in \<open>[0, size)\<close>, \<open>to_index\<close> returns, and the first
  \<open>len(shape)\<close> entries of \<open>out_index\<close> are then a valid coordinate of \<open>shape\<close> whose entry
  at dimension \<open>d\<close> is the ordinal, divided by the sizes of the dimensions after \<open>d\<close>, modulo
  \<open>shape[d]\<close>: what the loop from the last dimension to the first computes with
  \<open>ordinal % shape[dim]\<close> and \<open>ordinal //= shape[dim]\<close>. Entries of \<open>out_index\<close> beyond the
  dimensions of \<open>shape\<close> are unchanged. Distinct ordinals in \<open>[0, size)\<close> give distinct
  coordinates, and every valid coordinate of \<open>shape\<close> is the coordinate of such an ordinal.
\<close>

theorem to_index_bijection:
  assumes "\<forall>s\<in>set shape. 0 < s" and "length shape \<le> length out_index"
  shows "(\<forall>ordinal. 0 \<le> ordinal \<and> ordinal < prod_op shape \<longrightarrow>
            (\<exists>idx. to_index ordinal shape out_index = Inr (idx @ drop (length shape) out_index)
               \<and> valid_index shape idx
               \<and> (\<forall>d<length shape.
                     0 \<le> idx ! d \<and> idx ! d < shape ! d
                     \<and> idx ! d = (ordinal div prod_op (drop (Suc d) shape)) mod shape ! d)))
       \<and> inj_on (\<lambda>ordinal. to_index ordinal shape out_index) {0..<prod_op shape}
       \<and> (\<lambda>ordinal. to_index ordinal shape out_index) ` {0..<prod_op shape}
           = (\<lambda>idx. Inr (idx @ drop (length shape) out_index)) ` {idx. valid_index shape idx}"
proof (intro conjI allI impI)
  fix ordinal
  assume "0 \<le> ordinal \<and> ordinal < prod_op shape"
  let ?idx = "rev (mixed_digits ordinal (rev shape))"
  have 1: "to_index ordinal shape out_index = Inr (?idx @ drop (length shape) out_index)"
    using assms by (rule to_index_eq)
  have 2: "valid_index shape ?idx" using assms(1) by (rule coord_valid)
  have 3: "\<forall>d<length shape. 0 \<le> ?idx ! d \<and> ?idx ! d < shape ! d
             \<and> ?idx ! d = (ordinal div prod_op (drop (Suc d) shape)) mod shape ! d"
  proof (intro allI impI)
    fix d assume d: "d < length shape"
    have "0 < shape ! d" using assms(1) d by simp
    moreover have "?idx ! d = (ordinal div prod_op (drop (Suc d) shape)) mod shape ! d"
      using mixed_digits_nth[OF assms(1) d] by (simp add: prod_op_def)
    ultimately show "0 \<le> ?idx ! d \<and> ?idx ! d < shape ! d
             \<and> ?idx ! d = (ordinal div prod_op (drop (Suc d) shape)) mod shape ! d"
      by simp
  qed
  show "\<exists>idx. to_index ordinal shape out_index = Inr (idx @ drop (length shape) out_index)
               \<and> valid_index shape idx
               \<and> (\<forall>d<length shape.
                     0 \<le> idx ! d \<and> idx ! d < shape ! d
                     \<and> idx ! d = (ordinal div prod_op (drop (Suc d) shape)) mod shape ! d)"
    using 1 2 3 by blast
next
  show "inj_on (\<lambda>ordinal. to_index ordinal shape out_index) {0..<prod_op shape}"
  proof (rule inj_onI)
    fix m n
    assume m: "m \<in> {0..<prod_op shape}" and n: "n \<in> {0..<prod_op shape}"
      and eq: "to_index m shape out_index = to_index n shape out_index"
    have "rev (mixed_digits m (rev shape)) = rev (mixed_digits n (rev shape))"
      using eq by (simp add: to_index_eq[OF assms])
    then show "m = n" using coord_inj[OF assms(1), of m n] m n by simp
  qed
next
  show "(\<lambda>ordinal. to_index ordinal shape out_index) ` {0..<prod_op shape}
           = (\<lambda>idx. Inr (idx @ drop (length shape) out_index)) ` {idx. valid_index shape idx}"
  proof (intro equalityI subsetI)
    fix y :: "error + int list"
    assume "y \<in> (\<lambda>ordinal. to_index ordinal shape out_index) ` {0..<prod_op shape}"
    then obtain n where "y = to_index n shape out_index" by blast
    then have "y = Inr (rev (mixed_digits n (rev shape)) @ drop (length shape) out_index)"
      by (simp add: to_index_eq[OF assms])
    then show "y \<in> (\<lambda>idx. Inr (idx @ drop (length shape) out_index)) ` {idx. valid_index shape idx}"
      using coord_valid[OF assms(1), of n] by blast
  next
    fix y :: "error + int list"
    assume "y \<in> (\<lambda>idx. Inr (idx @ drop (length shape) out_index)) ` {idx. valid_index shape idx}"
    then obtain idx where y: "y = Inr (idx @ drop (length shape) out_index)"
      and v: "valid_index shape idx" by blast
    from coord_surj[OF v] obtain n where n: "0 \<le> n" "n < prod_op shape"
      "rev (mixed_digits n (rev shape)) = idx" by blast
    have "to_index n shape out_index = y" using y n(3) by (simp add: to_index_eq[OF assms])
    then show "y \<in> (\<lambda>ordinal. to_index ordinal shape out_index) ` {0..<prod_op shape}"
      using n(1,2) by force
  qed
qed

theorem to_index_bijection_witness:
  "length [2, 3::int] \<le> length [9, 9::int]
   \<and> to_index 4 [2, 3] [9, 9] = Inr [1, 1]
   \<and> inj_on (\<lambda>ordinal. to_index ordinal [2, 3] [9, 9]) {0..<prod_op [2, 3]}"
proof -
  have h1: "\<forall>s\<in>set [2, 3::int]. 0 < s" by simp
  have h2: "length [2, 3::int] \<le> length [9, 9::int]" by simp
  have e: "to_index 4 [2, 3] [9, 9] = Inr [1, 1]"
    by (simp add: to_index_def numeral_2_eq_2)
  show ?thesis using h1 h2 e to_index_bijection[OF h1 h2] by blast
qed

section \<open>The contiguous layout: \<open>strides_from_shape\<close>\<close>

lemma strides_loop_radix:
  "butlast (strides_from_shape_loop rs (layout @ [offset]) offset)
     = layout @ radix_strides offset rs"
proof (induction rs arbitrary: layout offset)
  case Nil
  show ?case by simp
next
  case (Cons r rs)
  have "butlast (strides_from_shape_loop rs ((layout @ [offset]) @ [r * offset]) (r * offset))
          = (layout @ [offset]) @ radix_strides (r * offset) rs"
    by (rule Cons.IH)
  then show ?case by (simp add: mult.commute)
qed

lemma strides_from_shape_radix:
  "strides_from_shape shape = rev (radix_strides 1 (rev shape))"
  using strides_loop_radix[of "rev shape" "[]" 1] by (simp add: strides_from_shape_def)

lemma length_radix_strides: "length (radix_strides c rs) = length rs"
  by (induction rs arbitrary: c) simp_all

lemma dot_radix_strides:
  "length ds = length rs \<Longrightarrow>
   sum_list (map (\<lambda>(i, s). i * s) (zip ds (radix_strides c rs))) = c * mixed_value ds rs"
proof (induction ds rs arbitrary: c rule: list_induct2)
  case Nil
  show ?case by simp
next
  case (Cons d ds r rs)
  show ?case by (simp add: Cons.IH algebra_simps)
qed

lemma position_contiguous:
  assumes "length idx = length shape"
  shows "index_to_position (Array1 idx) (strides_from_shape shape)
           = Inr (mixed_value (rev idx) (rev shape))"
proof -
  have len: "length (rev idx) = length (radix_strides 1 (rev shape))"
    using assms by (simp add: length_radix_strides)
  have "zip idx (rev (radix_strides 1 (rev shape)))
          = rev (zip (rev idx) (radix_strides 1 (rev shape)))"
    using zip_rev[OF len] by simp
  then have "sum_list (map (\<lambda>(i, s). i * s) (zip idx (rev (radix_strides 1 (rev shape)))))
          = sum_list (map (\<lambda>(i, s). i * s) (zip (rev idx) (radix_strides 1 (rev shape))))"
    by (simp add: rev_map[symmetric])
  also have "\<dots> = mixed_value (rev idx) (rev shape)"
    using dot_radix_strides[of "rev idx" "rev shape" 1] assms by simp
  finally show ?thesis
    using assms by (simp add: strides_from_shape_radix length_radix_strides)
qed

lemma position_of_coord:
  assumes "\<forall>s\<in>set shape. 0 < s" and "0 \<le> n" and "n < prod_op shape"
  shows "index_to_position (Array1 (rev (mixed_digits n (rev shape)))) (strides_from_shape shape)
           = Inr n"
proof -
  have p: "\<forall>r\<in>set (rev shape). 0 < r" using assms(1) by simp
  have "index_to_position (Array1 (rev (mixed_digits n (rev shape)))) (strides_from_shape shape)
          = Inr (mixed_value (mixed_digits n (rev shape)) (rev shape))"
    using position_contiguous[of "rev (mixed_digits n (rev shape))" shape]
    by (simp add: length_mixed_digits del: index_to_position.simps)
  also have "\<dots> = Inr (n mod prod_op shape)"
    by (simp add: mixed_value_digits[OF p] prod_op_def)
  finally show ?thesis using assms(2,3) by simp
qed

lemma indices_loop_eq:
  "\<forall>s\<in>set shape. 0 < s \<Longrightarrow> length out_index = length shape \<Longrightarrow>
   indices_loop ns shape out_index = Inr (map (\<lambda>n. rev (mixed_digits n (rev shape))) ns)"
proof (induction ns arbitrary: out_index)
  case Nil
  show ?case by simp
next
  case (Cons n ns)
  have 1: "to_index n shape out_index = Inr (rev (mixed_digits n (rev shape)))"
    using to_index_eq[of shape out_index n] Cons.prems by simp
  have 2: "indices_loop ns shape (rev (mixed_digits n (rev shape)))
             = Inr (map (\<lambda>n. rev (mixed_digits n (rev shape))) ns)"
    using Cons.prems(1) by (intro Cons.IH) (simp_all add: length_mixed_digits)
  show ?case by (simp add: 1 2)
qed

text \<open>
  C2. Let every dimension of \<open>shape\<close> be positive and \<open>t\<close> be built by the constructor from
  \<open>shape\<close> without strides, so that its strides are \<open>strides_from_shape(shape)\<close>. Then
  \<open>indices()\<close> yields \<open>size\<close> valid coordinates, and \<open>index_to_position\<close> maps them, in the
  order of the enumeration, to the positions \<open>0, 1, ..., size - 1\<close>: every position of the
  buffer exactly once.
\<close>

theorem contiguous_layout_covers:
  assumes "\<forall>s\<in>set shape. 0 < s"
    and "TensorData_init h storage shape None = Inr (t, h')"
  shows "\<exists>idxs. TensorData_indices t = Inr idxs
           \<and> td_strides t = strides_from_shape shape
           \<and> int (length idxs) = prod_op shape
           \<and> (\<forall>idx\<in>set idxs. valid_index shape idx)
           \<and> map (\<lambda>idx. index_to_position (Array1 idx) (td_strides t)) idxs
               = map Inr [0..prod_op shape - 1]"
proof -
  have t: "td_shape t = shape" "td_size t = prod_op shape" "td_strides t = strides_from_shape shape"
    using assms(2)
    by (auto simp: TensorData_init_def Let_def split: prod.splits if_splits)
  let ?c = "\<lambda>n. rev (mixed_digits n (rev shape))"
  let ?idxs = "map ?c [0..prod_op shape - 1]"
  have pos: "0 < prod_op shape" using prod_list_pos[OF assms(1)] by (simp add: prod_op_def)
  have 1: "TensorData_indices t = Inr ?idxs"
    unfolding TensorData_indices_def t using assms(1) by (intro indices_loop_eq) simp_all
  have 2: "int (length ?idxs) = prod_op shape" using pos by simp
  have 3: "\<forall>idx\<in>set ?idxs. valid_index shape idx"
    using coord_valid[OF assms(1)] by auto
  have 4: "map (\<lambda>idx. index_to_position (Array1 idx) (td_strides t)) ?idxs
             = map Inr [0..prod_op shape - 1]"
    unfolding t map_map
    by (rule map_cong[OF refl])
       (simp add: position_of_coord[OF assms(1)] del: index_to_position.simps)
  show ?thesis using 1 2 3 4 t(3) by blast
qed

theorem contiguous_layout_covers_witness:
  "TensorData_init \<lparr>buffers = (\<lambda>a. []), next_addr = 0\<rparr> (Sequence [10, 11, 12, 13, 14, 15::int])
        [2, 3] None
      = Inr (\<lparr>td_storage = 0, td_strides = [3, 1], td_shape = [2, 3], td_dims = 2, td_size = 6\<rparr>,
             \<lparr>buffers = (\<lambda>a. [])(0 := [10, 11, 12, 13, 14, 15]), next_addr = 1\<rparr>)
   \<and> (\<exists>idxs. TensorData_indices
                \<lparr>td_storage = 0, td_strides = [3, 1], td_shape = [2, 3], td_dims = 2, td_size = 6\<rparr>
              = Inr idxs
         \<and> map (\<lambda>idx. index_to_position (Array1 idx) [3, 1]) idxs = map Inr [0..prod_op [2, 3] - 1])"
proof -
  have h1: "\<forall>s\<in>set [2, 3::int]. 0 < s" by simp
  have h2: "TensorData_init \<lparr>buffers = (\<lambda>a. []), next_addr = 0\<rparr>
              (Sequence [10, 11, 12, 13, 14, 15::int]) [2, 3] None
      = Inr (\<lparr>td_storage = 0, td_strides = [3, 1], td_shape = [2, 3], td_dims = 2, td_size = 6\<rparr>,
             \<lparr>buffers = (\<lambda>a. [])(0 := [10, 11, 12, 13, 14, 15]), next_addr = 1\<rparr>)"
    by (simp add: TensorData_init_def strides_from_shape_def prod_op_def)
  show ?thesis using h1 h2 contiguous_layout_covers[OF h1 h2] by auto
qed

section \<open>Permutation: \<open>TensorData.permute\<close>\<close>

lemma TensorData_init_ok:
  "TensorData_init h storage shape strides_arg = Inr (t, h') \<Longrightarrow> TensorData_ok h' t"
  by (auto simp: TensorData_init_def TensorData_ok_def Let_def
           split: prod.splits if_splits storage_arg.splits)

lemma upto_nth_map:
  "map (\<lambda>i. xs ! nat i) [0..int (length xs) - 1] = xs"
  by (rule nth_equalityI) simp_all

lemma order_mset:
  assumes "sort order = [0..int n - 1]"
  shows "mset order = mset [0..int n - 1]"
proof -
  have "mset (sort order) = mset order" by simp
  then show ?thesis by (simp only: assms)
qed

lemma order_set:
  assumes "sort order = [0..int n - 1]" and "i \<in> set order"
  shows "0 \<le> i \<and> nat i < n"
proof -
  have "set order = set [0..int n - 1]" using order_mset[OF assms(1)] by (rule mset_eq_setD)
  then show ?thesis using assms(2) by auto
qed

lemma order_length:
  assumes "sort order = [0..int n - 1]"
  shows "length order = n"
proof -
  have "length order = length [0..int n - 1]"
    using order_mset[OF assms] by (rule mset_eq_length)
  then show ?thesis by simp
qed

lemma permuted_mset:
  assumes "sort order = [0..int (length xs) - 1]"
  shows "mset (map (\<lambda>i. xs ! nat i) order) = mset xs"
proof -
  have "mset (map (\<lambda>i. xs ! nat i) order) = image_mset (\<lambda>i. xs ! nat i) (mset order)"
    by simp
  also have "\<dots> = image_mset (\<lambda>i. xs ! nat i) (mset [0..int (length xs) - 1])"
    using order_mset[OF assms] by simp
  also have "\<dots> = mset (map (\<lambda>i. xs ! nat i) [0..int (length xs) - 1])" by simp
  also have "\<dots> = mset xs" by (simp only: upto_nth_map)
  finally show ?thesis .
qed

lemma permuted_prod:
  assumes "sort order = [0..int (length shape) - 1]"
  shows "prod_op (map (\<lambda>i. shape ! nat i) order) = prod_op shape"
proof -
  have "prod_list (map (\<lambda>i. shape ! nat i) order)
          = prod_mset (mset (map (\<lambda>i. shape ! nat i) order))"
    by (simp only: prod_mset_prod_list)
  also have "\<dots> = prod_mset (mset shape)" by (simp only: permuted_mset[OF assms])
  also have "\<dots> = prod_list shape" by (simp only: prod_mset_prod_list)
  finally show ?thesis by (simp add: prod_op_def)
qed

lemma permuted_dot:
  assumes "sort order = [0..int (length idx) - 1]" and "length strides = length idx"
  shows "sum_list (map (\<lambda>(i, s). i * s)
                     (zip (map (\<lambda>i. idx ! nat i) order) (map (\<lambda>i. strides ! nat i) order)))
           = sum_list (map (\<lambda>(i, s). i * s) (zip idx (strides :: int list)))"
proof -
  let ?z = "zip idx strides"
  have n: "length ?z = length idx" using assms(2) by simp
  have "zip (map (\<lambda>i. idx ! nat i) order) (map (\<lambda>i. strides ! nat i) order)
          = map (\<lambda>i. (idx ! nat i, strides ! nat i)) order"
    by (simp add: zip_map_map zip_same_conv_map)
  also have "\<dots> = map (\<lambda>i. ?z ! nat i) order"
  proof (rule map_cong[OF refl])
    fix i assume "i \<in> set order"
    then have "nat i < length idx" using order_set[OF assms(1)] by blast
    then show "(idx ! nat i, strides ! nat i) = ?z ! nat i" using assms(2) by simp
  qed
  finally have z: "zip (map (\<lambda>i. idx ! nat i) order) (map (\<lambda>i. strides ! nat i) order)
                     = map (\<lambda>i. ?z ! nat i) order" .
  have m: "mset (map (\<lambda>i. ?z ! nat i) order) = mset ?z"
    using assms(1) n by (intro permuted_mset) simp
  have "sum_list (map (\<lambda>(i, s). i * s) (map (\<lambda>i. ?z ! nat i) order))
          = sum_mset (image_mset (\<lambda>(i, s). i * s) (mset (map (\<lambda>i. ?z ! nat i) order)))"
    by (simp only: sum_mset_sum_list[symmetric] mset_map)
  also have "\<dots> = sum_mset (image_mset (\<lambda>(i, s). i * s) (mset ?z))" by (simp only: m)
  also have "\<dots> = sum_list (map (\<lambda>(i, s). i * s) ?z)"
    by (simp only: sum_mset_sum_list[symmetric] mset_map)
  finally show ?thesis by (simp only: z)
qed

lemma index_check_ok:
  "list_all2 (\<lambda>i s. 0 \<le> i \<and> i < s) ys zs \<Longrightarrow> length xs = k \<Longrightarrow>
   index_check k ys aindex (xs @ zs) = Inr ()"
proof (induction ys zs arbitrary: k xs rule: list_all2_induct)
  case Nil
  show ?case by simp
next
  case (Cons y ys z zs)
  have "index_check (Suc k) ys aindex ((xs @ [z]) @ zs) = Inr ()"
    using Cons.prems by (intro Cons.IH) simp
  then show ?case using Cons.hyps(1) Cons.prems by (simp add: nth_append)
qed

lemma index_valid:
  assumes "valid_index (td_shape t) idx" and "length (td_strides t) = length (td_shape t)"
  shows "TensorData_index t (SeqKey idx)
           = Inr (sum_list (map (\<lambda>(i, s). i * s) (zip idx (td_strides t))))"
proof -
  have len: "length idx = length (td_shape t)"
    using assms(1) by (simp add: valid_index_def list_all2_lengthD)
  have "index_check 0 idx idx ([] @ td_shape t) = Inr ()"
    using assms(1) by (intro index_check_ok) (simp_all add: valid_index_def)
  then show ?thesis using len assms(2) by (simp add: TensorData_index_def)
qed

lemma permuted_valid:
  assumes "sort order = [0..int (length shape) - 1]" and "valid_index shape idx"
  shows "valid_index (map (\<lambda>i. shape ! nat i) order) (permute_index order idx)"
proof -
  have "\<forall>i\<in>set order. 0 \<le> idx ! nat i \<and> idx ! nat i < shape ! nat i"
  proof
    fix i assume "i \<in> set order"
    then have "nat i < length shape" using order_set[OF assms(1)] by blast
    then show "0 \<le> idx ! nat i \<and> idx ! nat i < shape ! nat i"
      using assms(2) by (simp add: valid_index_def list_all2_conv_all_nth)
  qed
  then show ?thesis
    by (simp add: valid_index_def permute_index_def list_all2_map1 list_all2_map2 list_all2_same)
qed

lemma set_get_same:
  assumes "TensorData_index t' key' = Inr p" and "TensorData_index t key = Inr p"
    and "td_storage t' = td_storage t"
    and "TensorData_set h t' key' val = Inr h'"
  shows "TensorData_get h' t key = Inr val"
proof -
  let ?buf = "buffers h (td_storage t)"
  obtain k where k: "storage_pos (length ?buf) p = Inr k"
    and h': "h' = h\<lparr>buffers := (buffers h)(td_storage t := ?buf[k := val])\<rparr>"
    using assms(1,3,4) by (auto simp: TensorData_set_def split: sum.splits)
  have "k < length ?buf" using k by (auto simp: storage_pos_def split: if_splits)
  then show ?thesis using assms(2) k h' by (simp add: TensorData_get_def)
qed

lemma permute_eq:
  assumes ok: "TensorData_ok h t"
    and p: "sort order = [0..int (length (td_shape t)) - 1]"
  shows "TensorData_permute h t order
           = Inr \<lparr>td_storage = td_storage t,
                  td_strides = map (\<lambda>i. td_strides t ! nat i) order,
                  td_shape = map (\<lambda>i. td_shape t ! nat i) order,
                  td_dims = td_dims t, td_size = td_size t\<rparr>"
proof (cases "order = [0..int (length (td_shape t)) - 1]")
  case True
  have s: "length (td_strides t) = length (td_shape t)" using ok by (simp add: TensorData_ok_def)
  have 1: "map (\<lambda>i. td_shape t ! nat i) order = td_shape t"
    unfolding True by (rule upto_nth_map)
  have 2: "map (\<lambda>i. td_strides t ! nat i) order = td_strides t"
    unfolding True s[symmetric] by (rule upto_nth_map)
  show ?thesis using p True unfolding 1 2 by (simp add: TensorData_permute_def)
next
  case False
  have len: "length order = length (td_shape t)" using p by (rule order_length)
  have pr: "prod_op (map (\<lambda>i. td_shape t ! nat i) order) = td_size t"
    using permuted_prod[OF p] ok by (simp add: TensorData_ok_def)
  have buf: "int (length (buffers h (td_storage t))) = td_size t"
    and d: "td_dims t = length (td_shape t)"
    using ok by (simp_all add: TensorData_ok_def)
  show ?thesis using p False
    by (simp add: TensorData_permute_def TensorData_init_def Let_def pr buf d len)
qed

text \<open>
  C6. Let \<open>t\<close> be a \<open>TensorData\<close> as the constructor builds it, \<open>p\<close> a permutation of its
  dimensions and \<open>q\<close> the inverse of \<open>p\<close>. Then \<open>t.permute(*p)\<close> returns a view with the
  buffer of \<open>t\<close> (the same address: nothing is copied) and with the shape and strides of
  \<open>t\<close> reordered by \<open>p\<close>, and \<open>permute(*q)\<close> of this view returns \<open>t\<close> again: the same
  shape, strides and buffer. For every valid coordinate \<open>idx\<close> of \<open>t\<close>, a \<open>set\<close> through the
  view at the corresponding coordinate does what the \<open>set\<close> through \<open>t\<close> at \<open>idx\<close> does,
  and when it returns, \<open>get\<close> through \<open>t\<close> at \<open>idx\<close> returns the value written.
\<close>

theorem permute_round_trip:
  assumes ok: "TensorData_ok h t"
    and p: "sort p = [0..int (length (td_shape t)) - 1]"
    and q: "sort q = [0..int (length (td_shape t)) - 1]"
    and inv: "list_all (\<lambda>j. p ! nat (q ! j) = int j) [0..<length (td_shape t)]"
  shows "\<exists>t'. TensorData_permute h t p = Inr t'
           \<and> td_storage t' = td_storage t
           \<and> td_shape t' = map (\<lambda>i. td_shape t ! nat i) p
           \<and> td_strides t' = map (\<lambda>i. td_strides t ! nat i) p
           \<and> TensorData_permute h t' q = Inr t
           \<and> (\<forall>idx val. valid_index (td_shape t) idx \<longrightarrow>
                 TensorData_set h t' (SeqKey (permute_index p idx)) val
                   = TensorData_set h t (SeqKey idx) val
                 \<and> (\<forall>h'. TensorData_set h t' (SeqKey (permute_index p idx)) val = Inr h'
                        \<longrightarrow> TensorData_get h' t (SeqKey idx) = Inr val))"
proof -
  let ?n = "length (td_shape t)"
  let ?t' = "\<lparr>td_storage = td_storage t,
              td_strides = map (\<lambda>i. td_strides t ! nat i) p,
              td_shape = map (\<lambda>i. td_shape t ! nat i) p,
              td_dims = td_dims t, td_size = td_size t\<rparr>"
  have s: "length (td_strides t) = ?n" using ok by (simp add: TensorData_ok_def)
  have lp: "length p = ?n" using p by (rule order_length)
  have lq: "length q = ?n" using q by (rule order_length)
  have 1: "TensorData_permute h t p = Inr ?t'" using ok p by (rule permute_eq)
  have ok': "TensorData_ok h ?t'"
    using ok permuted_prod[OF p] by (simp add: TensorData_ok_def lp)
  have q': "sort q = [0..int (length (td_shape ?t')) - 1]" using q lp by simp
  have comp: "xs ! nat (p ! nat (q ! k)) = xs ! k" if "k < ?n" for k and xs :: "int list"
    using inv that by (simp add: list_all_iff)
  have unperm: "map (\<lambda>j. map (\<lambda>i. xs ! nat i) p ! nat j) q = xs"
    if "length xs = ?n" for xs :: "int list"
  proof (rule nth_equalityI)
    show "length (map (\<lambda>j. map (\<lambda>i. xs ! nat i) p ! nat j) q) = length xs"
      using lq that by simp
  next
    fix k assume "k < length (map (\<lambda>j. map (\<lambda>i. xs ! nat i) p ! nat j) q)"
    then have k: "k < ?n" using lq by simp
    have "q ! k \<in> set q" using k lq by simp
    then have "nat (q ! k) < length p" using order_set[OF q] lp by simp
    then show "map (\<lambda>j. map (\<lambda>i. xs ! nat i) p ! nat j) q ! k = xs ! k"
      using k lq comp[OF k] by simp
  qed
  have "TensorData_permute h ?t' q
          = Inr \<lparr>td_storage = td_storage ?t',
                 td_strides = map (\<lambda>i. td_strides ?t' ! nat i) q,
                 td_shape = map (\<lambda>i. td_shape ?t' ! nat i) q,
                 td_dims = td_dims ?t', td_size = td_size ?t'\<rparr>"
    using ok' q' by (rule permute_eq)
  then have 2: "TensorData_permute h ?t' q = Inr t"
    using unperm[of "td_shape t"] unperm[of "td_strides t"] s by simp
  have 3: "\<forall>idx val. valid_index (td_shape t) idx \<longrightarrow>
             TensorData_set h ?t' (SeqKey (permute_index p idx)) val
               = TensorData_set h t (SeqKey idx) val
             \<and> (\<forall>h'. TensorData_set h ?t' (SeqKey (permute_index p idx)) val = Inr h'
                    \<longrightarrow> TensorData_get h' t (SeqKey idx) = Inr val)"
  proof (intro allI impI)
    fix idx :: "int list" and val :: 'a
    assume v: "valid_index (td_shape t) idx"
    have li: "length idx = ?n" using v by (simp add: valid_index_def list_all2_lengthD)
    let ?pos = "sum_list (map (\<lambda>(i, s). i * s) (zip idx (td_strides t)))"
    have a: "TensorData_index t (SeqKey idx) = Inr ?pos" using v s by (rule index_valid)
    have v': "valid_index (td_shape ?t') (permute_index p idx)"
      using permuted_valid[OF p v] by simp
    have "TensorData_index ?t' (SeqKey (permute_index p idx))
            = Inr (sum_list (map (\<lambda>(i, s). i * s)
                     (zip (permute_index p idx) (td_strides ?t'))))"
      using v' by (rule index_valid) (simp add: lp)
    also have "sum_list (map (\<lambda>(i, s). i * s) (zip (permute_index p idx) (td_strides ?t')))
                 = ?pos"
      using permuted_dot[of p idx "td_strides t"] p li s by (simp add: permute_index_def)
    finally have b: "TensorData_index ?t' (SeqKey (permute_index p idx)) = Inr ?pos" .
    have c: "TensorData_set h ?t' (SeqKey (permute_index p idx)) val
               = TensorData_set h t (SeqKey idx) val"
      by (simp add: TensorData_set_def a b split: sum.splits)
    have d: "\<forall>h'. TensorData_set h ?t' (SeqKey (permute_index p idx)) val = Inr h'
               \<longrightarrow> TensorData_get h' t (SeqKey idx) = Inr val"
    proof (intro allI impI)
      fix h' assume e: "TensorData_set h ?t' (SeqKey (permute_index p idx)) val = Inr h'"
      have f: "td_storage ?t' = td_storage t" by simp
      show "TensorData_get h' t (SeqKey idx) = Inr val"
        using b a f e by (rule set_get_same)
    qed
    show "TensorData_set h ?t' (SeqKey (permute_index p idx)) val
               = TensorData_set h t (SeqKey idx) val
             \<and> (\<forall>h'. TensorData_set h ?t' (SeqKey (permute_index p idx)) val = Inr h'
                    \<longrightarrow> TensorData_get h' t (SeqKey idx) = Inr val)"
      using c d by blast
  qed
  show ?thesis using 1 2 3 by (intro exI[of _ ?t']) simp
qed

theorem permute_round_trip_witness:
  "TensorData_ok \<lparr>buffers = (\<lambda>a. [])(0 := [10, 11, 12, 13, 14, 15::int]), next_addr = 1\<rparr>
     \<lparr>td_storage = 0, td_strides = [3, 1], td_shape = [2, 3], td_dims = 2, td_size = 6\<rparr>
   \<and> TensorData_permute \<lparr>buffers = (\<lambda>a. [])(0 := [10, 11, 12, 13, 14, 15::int]), next_addr = 1\<rparr>
        \<lparr>td_storage = 0, td_strides = [3, 1], td_shape = [2, 3], td_dims = 2, td_size = 6\<rparr> [1, 0]
      = Inr \<lparr>td_storage = 0, td_strides = [1, 3], td_shape = [3, 2], td_dims = 2, td_size = 6\<rparr>
   \<and> TensorData_permute \<lparr>buffers = (\<lambda>a. [])(0 := [10, 11, 12, 13, 14, 15::int]), next_addr = 1\<rparr>
        \<lparr>td_storage = 0, td_strides = [1, 3], td_shape = [3, 2], td_dims = 2, td_size = 6\<rparr> [1, 0]
      = Inr \<lparr>td_storage = 0, td_strides = [3, 1], td_shape = [2, 3], td_dims = 2, td_size = 6\<rparr>
   \<and> TensorData_set \<lparr>buffers = (\<lambda>a. [])(0 := [10, 11, 12, 13, 14, 15::int]), next_addr = 1\<rparr>
        \<lparr>td_storage = 0, td_strides = [1, 3], td_shape = [3, 2], td_dims = 2, td_size = 6\<rparr>
        (SeqKey [2, 1]) 99
      = Inr \<lparr>buffers = (\<lambda>a. [])(0 := [10, 11, 12, 13, 14, 99]), next_addr = 1\<rparr>
   \<and> TensorData_get \<lparr>buffers = (\<lambda>a. [])(0 := [10, 11, 12, 13, 14, 99::int]), next_addr = 1\<rparr>
        \<lparr>td_storage = 0, td_strides = [3, 1], td_shape = [2, 3], td_dims = 2, td_size = 6\<rparr>
        (SeqKey [1, 2])
      = Inr 99"
proof -
  let ?h = "\<lparr>buffers = (\<lambda>a. [])(0 := [10, 11, 12, 13, 14, 15::int]), next_addr = 1\<rparr>"
  let ?h' = "\<lparr>buffers = (\<lambda>a. [])(0 := [10, 11, 12, 13, 14, 99::int]), next_addr = 1\<rparr>"
  let ?t = "\<lparr>td_storage = 0, td_strides = [3, 1], td_shape = [2, 3], td_dims = 2, td_size = 6\<rparr>"
  let ?t' = "\<lparr>td_storage = 0, td_strides = [1, 3], td_shape = [3, 2], td_dims = 2, td_size = 6\<rparr>"
  have u: "[0..int (length (td_shape ?t)) - 1] = [0, 1]"
    by (simp add: upto.simps)
  have ok: "TensorData_ok ?h ?t" by (simp add: TensorData_ok_def prod_op_def)
  have p: "sort [1, 0] = [0..int (length (td_shape ?t)) - 1]" unfolding u by simp
  have i: "list_all (\<lambda>j. [1, 0::int] ! nat ([1, 0::int] ! j) = int j) [0..<length (td_shape ?t)]"
    by (simp add: upt_rec)
  have v: "valid_index (td_shape ?t) [1, 2]" by (simp add: valid_index_def)
  have s: "TensorData_set ?h ?t' (SeqKey [2, 1]) 99 = Inr ?h'"
    by (simp add: TensorData_set_def TensorData_index_def storage_pos_def)
  from permute_round_trip[OF ok p p i] obtain t' where
    a: "TensorData_permute ?h ?t [1, 0] = Inr t'"
    and b: "td_shape t' = map (\<lambda>i. td_shape ?t ! nat i) [1, 0]"
           "td_strides t' = map (\<lambda>i. td_strides ?t ! nat i) [1, 0]"
           "td_storage t' = td_storage ?t"
    and c: "TensorData_permute ?h t' [1, 0] = Inr ?t"
    and d: "\<forall>idx val. valid_index (td_shape ?t) idx \<longrightarrow>
              TensorData_set ?h t' (SeqKey (permute_index [1, 0] idx)) val
                = TensorData_set ?h ?t (SeqKey idx) val
              \<and> (\<forall>h'. TensorData_set ?h t' (SeqKey (permute_index [1, 0] idx)) val = Inr h'
                     \<longrightarrow> TensorData_get h' ?t (SeqKey idx) = Inr val)"
    by blast
  have "TensorData_permute ?h ?t [1, 0] = Inr ?t'"
    unfolding TensorData_permute_def u
    by (simp add: TensorData_init_def prod_op_def)
  then have t': "t' = ?t'" using a by simp
  have g: "TensorData_get ?h' ?t (SeqKey [1, 2]) = Inr 99"
    using d v s unfolding t' by (simp add: permute_index_def)
  show ?thesis using ok a c s g unfolding t' by simp
qed

end
